theory Spec2Isabelle
  imports Main
begin

section \<open>Go values used by the plugin subsystem\<close>

text \<open>
  A Go string is a sequence of bytes, here a \<open>string\<close> (a \<open>char list\<close>). A Go
  \<open>error\<close> is a value carrying a message. A function of result type \<open>([]string, error)\<close>
  returns both components, so its model returns a pair whose second component is \<open>None\<close>
  for \<open>nil\<close>.
\<close>

datatype error = Errorf string

type_synonym env_result = "string list \<times> error option"

subsection \<open>Package strings\<close>

text \<open>
  \<open>unicode.IsLower\<close>, \<open>unicode.IsUpper\<close>, \<open>unicode.IsDigit\<close> and \<open>strings.ToUpper\<close> are
  modelled on ASCII: a byte outside \<open>a..z\<close> is left as it is by \<open>ToUpper\<close>, and a byte
  of 128 or more belongs to no letter or digit class. The names this subsystem transforms
  (flag names, Go field names) are ASCII identifiers.
\<close>

definition IsLower :: "char \<Rightarrow> bool" where
  "IsLower c = (97 \<le> (of_char c :: nat) \<and> (of_char c :: nat) \<le> 122)"

definition IsUpper :: "char \<Rightarrow> bool" where
  "IsUpper c = (65 \<le> (of_char c :: nat) \<and> (of_char c :: nat) \<le> 90)"

definition IsDigit :: "char \<Rightarrow> bool" where
  "IsDigit c = (48 \<le> (of_char c :: nat) \<and> (of_char c :: nat) \<le> 57)"

definition toUpperByte :: "char \<Rightarrow> char" where
  "toUpperByte c = (if IsLower c then char_of ((of_char c :: nat) - 32) else c)"

definition ToUpper :: "string \<Rightarrow> string" where
  "ToUpper s = map toUpperByte s"

definition HasPrefix :: "string \<Rightarrow> string \<Rightarrow> bool" where
  "HasPrefix s p = (take (length p) s = p)"

definition TrimPrefix :: "string \<Rightarrow> string \<Rightarrow> string" where
  "TrimPrefix s p = (if HasPrefix s p then drop (length p) s else s)"

text \<open>
  \<open>strings.Replace(s, old, new, -1)\<close> where \<open>old\<close> and \<open>new\<close> are one byte each, as at
  its only call site: every occurrence is replaced.
\<close>

definition Replace :: "string \<Rightarrow> char \<Rightarrow> char \<Rightarrow> string" where
  "Replace s old new = map (\<lambda>c. if c = old then new else c) s"

text \<open>
  \<open>strings.Split(s, sep)\<close> for a separator of one byte, as at both call sites
  (\<open>" "\<close> and \<open>"."\<close>). \<open>Split_from cur s sep\<close> is the scan with \<open>cur\<close> the piece read
  so far; every occurrence of the separator closes a piece, so two adjacent separators
  give an empty piece and the empty string gives one empty piece.
\<close>

fun Split_from :: "string \<Rightarrow> string \<Rightarrow> char \<Rightarrow> string list" where
  "Split_from cur [] sep = [cur]"
| "Split_from cur (c # s) sep =
     (if c = sep then cur # Split_from [] s sep else Split_from (cur @ [c]) s sep)"

definition Split :: "string \<Rightarrow> char \<Rightarrow> string list" where
  "Split s sep = Split_from [] s sep"

fun Join :: "string list \<Rightarrow> string \<Rightarrow> string" where
  "Join [] sep = []"
| "Join [a] sep = a"
| "Join (a # b # rest) sep = a @ sep @ Join (b # rest) sep"

text \<open>\<open>fmt.Sprintf("%s=%s", k, v)\<close>.\<close>

definition Sprintf_kv :: "string \<Rightarrow> string \<Rightarrow> string" where
  "Sprintf_kv k v = k @ ''='' @ v"

subsection \<open>Package camelcase\<close>

text \<open>
  Modelled from the spec: \<open>camelcase.Split\<close> (github.com/fatih/camelcase) is called by
  \<open>FieldToEnvName\<close> and is not among the sources. The spec has each path segment
  "decomposed into word boundaries (transitions between lowercase/uppercase/digit runs)",
  with a sequence of uppercase letters such as an acronym "not split letter-by-letter"
  and \<open>APIPath\<close> giving the groups \<open>API\<close> and \<open>Path\<close>. So: the segment is cut into maximal
  runs of one character class (lower, upper, digit, other); where a run of uppercase
  letters is followed by a run of lowercase letters, the last uppercase letter starts
  the lowercase word; empty pieces are dropped.
\<close>

definition class_of :: "char \<Rightarrow> nat" where
  "class_of r = (if IsLower r then 1 else if IsUpper r then 2 else if IsDigit r then 3 else 4)"

text \<open>
  Modelled from the spec: the maximal runs of one character class, in order (the
  "transitions between lowercase/uppercase/digit runs").
\<close>

fun class_runs :: "string \<Rightarrow> string list" where
  "class_runs [] = []"
| "class_runs (r # src) =
     (case class_runs src of
        (d # run) # runs \<Rightarrow>
          if class_of r = class_of d then (r # d # run) # runs else [r] # (d # run) # runs
      | _ \<Rightarrow> [[r]])"

text \<open>
  Modelled from the spec: where an uppercase run is followed by a lowercase run, the last
  letter of the uppercase run moves to the front of the lowercase run, so that an
  acronym stays whole and the word after it keeps its capital.
\<close>

fun upper_lower_fix :: "string list \<Rightarrow> string list" where
  "upper_lower_fix (a # b # runs) =
     (if a \<noteq> [] \<and> b \<noteq> [] \<and> IsUpper (hd a) \<and> IsLower (hd b)
      then butlast a # upper_lower_fix ((last a # b) # runs)
      else a # upper_lower_fix (b # runs))"
| "upper_lower_fix runs = runs"

text \<open>
  Modelled from the spec: \<open>camelcase.Split\<close>, the runs after this adjustment, without
  the empty ones.
\<close>

definition camelcase_Split :: "string \<Rightarrow> string list" where
  "camelcase_Split src = filter (\<lambda>s. s \<noteq> []) (upper_lower_fix (class_runs src))"

section \<open>Naming transform (helpers.go)\<close>

text \<open>A \<open>pflag.Flag\<close>, as far as the sources read it: its name and its value as text.\<close>

record Flag =
  flag_Name :: string
  flag_Value :: string

definition FlagToEnvName :: "string \<Rightarrow> string \<Rightarrow> string" where
  "FlagToEnvName flagName prefix =
     (let envName = TrimPrefix flagName ''--'';
          envName = ToUpper envName;
          envName = Replace envName CHR ''-'' CHR ''_'';
          envName = prefix @ envName
      in envName)"

definition FlagToEnv :: "Flag \<Rightarrow> string \<Rightarrow> string" where
  "FlagToEnv flag prefix =
     (let envName = FlagToEnvName (flag_Name flag) prefix
      in Sprintf_kv envName (flag_Value flag))"

text \<open>The loop of \<open>FieldToEnvName\<close> over the segments, \<open>parts\<close> being the accumulator.\<close>

fun FieldToEnvName_parts :: "string list \<Rightarrow> string list \<Rightarrow> string list" where
  "FieldToEnvName_parts parts [] = parts"
| "FieldToEnvName_parts parts (s # segs) =
     (let split = camelcase_Split s;
          envPart = Join split ''_'';
          envPart = ToUpper envPart
      in FieldToEnvName_parts (parts @ [envPart]) segs)"

definition FieldToEnvName :: "string \<Rightarrow> string \<Rightarrow> string" where
  "FieldToEnvName fieldName prefix =
     prefix @ Join (FieldToEnvName_parts [] (Split fieldName CHR ''.'')) ''_''"

definition FieldToEnv :: "string \<Rightarrow> string \<Rightarrow> string \<Rightarrow> string" where
  "FieldToEnv fieldName fieldValue prefix =
     (let envName = FieldToEnvName fieldName prefix
      in Sprintf_kv envName fieldValue)"

section \<open>Plugin descriptors\<close>

text \<open>
  Modelled from the spec: the declaration of the struct \<open>Plugin\<close> is in a file of package
  plugins that is not among the sources. The fields are the ones the sources read
  (\<open>Name\<close>, \<open>ShortDesc\<close>, \<open>LongDesc\<close>, \<open>Example\<close>, \<open>Command\<close>, \<open>Dir\<close>, \<open>Tree\<close>), the
  spec's PluginDescriptor: name, short summary, long help, example, invocation template,
  source directory, children.
\<close>

datatype Plugin = Plugin
  (Name: string) (ShortDesc: string) (LongDesc: string) (Example: string)
  (Command: string) (Dir: string) (Tree: "Plugin list")

text \<open>
  Modelled from the spec: the method \<open>IsValid\<close> of \<open>Plugin\<close> is declared with the struct,
  not among the sources. In the spec's words, a descriptor is "valid" iff \<open>name\<close> is
  non-empty.
\<close>

definition IsValid :: "Plugin \<Rightarrow> bool" where
  "IsValid p = (length (Name p) > 0)"

section \<open>Collaborators\<close>

text \<open>
  The fields of \<open>restclient.Config\<close> that the sources read. \<open>Timeout\<close> is a
  \<open>time.Duration\<close>, an \<open>int64\<close> count of nanoseconds; byte slices are strings.
\<close>

record ImpersonationConfig =
  UserName :: string
  Groups :: "string list"

record Config =
  Host :: string
  APIPath :: string
  Prefix :: string
  Username :: string
  Password :: string
  BearerToken :: string
  Impersonate :: ImpersonationConfig
  Insecure :: bool
  ServerName :: string
  CertFile :: string
  KeyFile :: string
  CAFile :: string
  CertData :: string
  KeyData :: string
  CAData :: string
  UserAgent :: string
  Timeout :: int

text \<open>
  \<open>cmdutil.Factory\<close> is an interface; the sources call \<open>ClientConfig()\<close> and
  \<open>DefaultNamespace()\<close> on it, and a factory is modelled by what the two calls return.
  The configuration returned with a nil error is taken to be a non-nil pointer.
\<close>

record Factory =
  ClientConfig :: "Config \<times> error option"
  DefaultNamespace :: "string \<times> bool \<times> error option"

text \<open>
  A \<open>cobra.Command\<close>: the fields \<open>NewCmdForPlugin\<close> sets, the plugin its \<open>Run\<close> closure
  captures, the flags \<open>Flags().VisitAll\<close> visits (in visiting order), and the arguments
  of the calls of \<open>AddCommand\<close>, in order (\<open>None\<close> for a nil pointer).
\<close>

datatype Command = CobraCommand
  (cobra_Use: string) (cobra_Short: string) (cobra_Long: string) (cobra_Example: string)
  (cobra_Run: Plugin) (cobra_Flags: "Flag list") (cobra_commands: "Command option list")

text \<open>\<open>templates.LongDesc\<close> and \<open>templates.Examples\<close> are not among the sources: parameters.\<close>

record templates =
  templates_LongDesc :: "string \<Rightarrow> string"
  templates_Examples :: "string \<Rightarrow> string"

text \<open>Streams are handles. An \<open>exec.Cmd\<close> as \<open>Run\<close> fills it in.\<close>

type_synonym stream = nat

record ExecCmd =
  exec_Path :: string
  exec_Args :: "string list"
  exec_Stdin :: stream
  exec_Stdout :: stream
  exec_Stderr :: stream
  exec_Env :: "string list"
  exec_Dir :: string

text \<open>
  \<open>exec.Command(name, arg...)\<close>: the argument vector starts with the name. The path is
  the name as given; the lookup of the name in \<open>PATH\<close> is not modelled.
\<close>

definition exec_Command :: "string \<Rightarrow> string list \<Rightarrow> ExecCmd" where
  "exec_Command name arg =
     \<lparr>exec_Path = name, exec_Args = name # arg, exec_Stdin = 0, exec_Stdout = 0,
      exec_Stderr = 0, exec_Env = [], exec_Dir = []\<rparr>"

text \<open>
  The process the code runs in: what \<open>os.Environ()\<close> and \<open>os.Executable()\<close> return,
  \<open>os.ExpandEnv\<close> (the expansion of \<open>$VAR\<close> references against this environment, a
  function of the Go library taken as given), \<open>time.Duration.String\<close> (likewise), and
  what running a child process to its end returns.
\<close>

record os =
  os_Environ :: "string list"
  os_Executable :: "string \<times> error option"
  os_ExpandEnv :: "string \<Rightarrow> string"
  Duration_String :: "int \<Rightarrow> string"
  exec_Cmd_Run :: "ExecCmd \<Rightarrow> error option"

subsection \<open>Package strconv\<close>

definition digit_char :: "nat \<Rightarrow> char" where
  "digit_char d = char_of (48 + d)"

function FormatUint :: "nat \<Rightarrow> string" where
  "FormatUint n = (if n < 10 then [digit_char n] else FormatUint (n div 10) @ [digit_char (n mod 10)])"
  by pat_completeness auto
termination
  by (relation "measure id") auto

text \<open>\<open>strconv.FormatInt(i, 10)\<close> and \<open>strconv.FormatBool\<close>.\<close>

definition FormatInt :: "int \<Rightarrow> string" where
  "FormatInt i = (if i < 0 then CHR ''-'' # FormatUint (nat (- i)) else FormatUint (nat i))"

definition FormatBool :: "bool \<Rightarrow> string" where
  "FormatBool b = (if b then ''true'' else ''false'')"

text \<open>Go's integer division truncates toward zero.\<close>

definition go_div :: "int \<Rightarrow> int \<Rightarrow> int" where
  "go_div a b = (if (a < 0) = (b < 0) then \<bar>a\<bar> div \<bar>b\<bar> else - (\<bar>a\<bar> div \<bar>b\<bar>))"

section \<open>Environment providers (runner.go, plugin.go)\<close>

text \<open>
  \<open>RunningEnvProvider\<close> is an interface with the one method \<open>Env\<close>; its implementations
  in the sources are the constructors, each with the fields of its struct.
\<close>

datatype RunningEnvProvider =
    MultiRunningEnvProvider "RunningEnvProvider list"
  | PluginCallerEnvProvider
  | PluginDescriptorEnvProvider "Plugin option"
  | OSEnvProvider
  | EmptyEnvProvider
  | flagsPluginEnvProvider Command
  | factoryAttrsPluginEnvProvider Factory
  | restClientConfigPluginEnvProvider Config

definition restClientConfig_Env :: "os \<Rightarrow> Config \<Rightarrow> env_result" where
  "restClientConfig_Env w cfg =
     (let prefix = ''KUBECTL_PLUGINS_REST_CLIENT_CONFIG_'' in
      ([FieldToEnv ''Host'' (Host cfg) prefix,
        FieldToEnv ''APIPath'' (APIPath cfg) prefix,
        FieldToEnv ''Prefix'' (Prefix cfg) prefix,
        FieldToEnv ''Username'' (Username cfg) prefix,
        FieldToEnv ''Password'' (Password cfg) prefix,
        FieldToEnv ''BearerToken'' (BearerToken cfg) prefix,
        FieldToEnv ''Impersonate.UserName'' (UserName (Impersonate cfg)) prefix,
        FieldToEnv ''Impersonate.Groups'' (Join (Groups (Impersonate cfg)) '','') prefix,
        FieldToEnv ''Insecure'' (FormatBool (Insecure cfg)) prefix,
        FieldToEnv ''ServerName'' (ServerName cfg) prefix,
        FieldToEnv ''CertFile'' (CertFile cfg) prefix,
        FieldToEnv ''KeyFile'' (KeyFile cfg) prefix,
        FieldToEnv ''CAFile'' (CAFile cfg) prefix,
        FieldToEnv ''CertData'' (CertData cfg) prefix,
        FieldToEnv ''KeyData'' (KeyData cfg) prefix,
        FieldToEnv ''CAData'' (CAData cfg) prefix,
        FieldToEnv ''UserAgent'' (UserAgent cfg) prefix,
        FieldToEnv ''Timeout'' (Duration_String w (Timeout cfg)) prefix,
        FieldToEnv ''TimeoutMS'' (FormatInt (go_div (Timeout cfg) 1000000)) prefix], None))"

definition PluginDescriptor_Env :: "Plugin option \<Rightarrow> env_result" where
  "PluginDescriptor_Env p =
     (case p of
        None \<Rightarrow> ([], Some (Errorf ''plugin not present to extract env''))
      | Some plugin \<Rightarrow>
          (let prefix = ''KUBECTL_PLUGINS_DESCRIPTOR_'';
               env = [];
               env = env @ [FieldToEnv ''Name'' (Name plugin) prefix];
               env = env @ [FieldToEnv ''ShortDesc'' (ShortDesc plugin) prefix];
               env = env @ [FieldToEnv ''LongDesc'' (LongDesc plugin) prefix];
               env = env @ [FieldToEnv ''Example'' (Example plugin) prefix];
               env = env @ [FieldToEnv ''Command'' (Command plugin) prefix]
           in (env, None)))"

text \<open>
  \<open>Env\<close> is the method of each implementation; \<open>MultiRunningEnvProvider_loop\<close> is the
  loop of \<open>MultiRunningEnvProvider.Env\<close> over the providers left, \<open>env\<close> being the
  entries gathered so far.
\<close>

fun Env :: "os \<Rightarrow> RunningEnvProvider \<Rightarrow> env_result"
  and MultiRunningEnvProvider_loop :: "os \<Rightarrow> RunningEnvProvider list \<Rightarrow> string list \<Rightarrow> env_result"
where
  "Env w (MultiRunningEnvProvider p) = MultiRunningEnvProvider_loop w p []"
| "Env w PluginCallerEnvProvider =
     (case os_Executable w of
        (caller, Some err) \<Rightarrow> ([], Some err)
      | (caller, None) \<Rightarrow> ([Sprintf_kv ''KUBECTL_PLUGINS_CALLER'' caller], None))"
| "Env w (PluginDescriptorEnvProvider plugin) = PluginDescriptor_Env plugin"
| "Env w OSEnvProvider = (os_Environ w, None)"
| "Env w EmptyEnvProvider = ([], None)"
| "Env w (flagsPluginEnvProvider cmd) =
     (map (\<lambda>flag. FlagToEnv flag ''KUBECTL_PLUGINS_GLOBAL_FLAG_'') (cobra_Flags cmd), None)"
| "Env w (factoryAttrsPluginEnvProvider factory) =
     (case DefaultNamespace factory of
        (cmdNamespace, _, Some err) \<Rightarrow> ([], Some err)
      | (cmdNamespace, _, None) \<Rightarrow>
          ([Sprintf_kv ''KUBECTL_PLUGINS_CURRENT_NAMESPACE'' cmdNamespace], None))"
| "Env w (restClientConfigPluginEnvProvider cfg) = restClientConfig_Env w cfg"
| "MultiRunningEnvProvider_loop w [] env = (env, None)"
| "MultiRunningEnvProvider_loop w (provider # rest) env =
     (case Env w provider of
        (pEnv, Some err) \<Rightarrow> ([], Some err)
      | (pEnv, None) \<Rightarrow> MultiRunningEnvProvider_loop w rest (env @ pEnv))"

section \<open>Process runner (runner.go)\<close>

record RunningContext =
  In :: stream
  Out :: stream
  ErrOut :: stream
  Args :: "string list"
  EnvProvider :: RunningEnvProvider
  WorkingDir :: string

text \<open>
  What a call of a Go function ends in: a panic, or a return of an \<open>error\<close>
  (\<open>None\<close> for \<open>nil\<close>).
\<close>

datatype outcome = Panicked string | Returned "error option"

text \<open>
  \<open>ExecPluginRunner.Run\<close>. The second component of the result lists the calls of
  \<open>cmd.Run()\<close>, each as the \<open>exec.Cmd\<close> it was called on: no child process is started
  without such a call. Indexing \<open>command[0]\<close> panics on an empty slice.
\<close>

definition Run :: "os \<Rightarrow> Plugin \<Rightarrow> RunningContext \<Rightarrow> outcome \<times> ExecCmd list" where
  "Run w plugin ctx =
     (let command = Split (os_ExpandEnv w (Command plugin)) CHR '' '' in
      case command of
        [] \<Rightarrow> (Panicked ''index out of range'', [])
      | base # rest \<Rightarrow>
          (let args = [];
               args = (if length command > 1 then rest else args);
               args = args @ Args ctx;
               cmd = exec_Command base args;
               cmd = cmd\<lparr>exec_Stdin := In ctx, exec_Stdout := Out ctx, exec_Stderr := ErrOut ctx\<rparr>
           in case Env w (EnvProvider ctx) of
                (env, Some err) \<Rightarrow> (Returned (Some err), [])
              | (env, None) \<Rightarrow>
                  (let cmd = cmd\<lparr>exec_Env := env, exec_Dir := WorkingDir ctx\<rparr>
                   in (Returned (exec_Cmd_Run w cmd), [cmd]))))"

section \<open>Command binder (plugin.go)\<close>

text \<open>
  Modelled from the spec: \<open>cmdutil.CheckErr\<close> and \<open>cmdutil.DefaultSubCommandRun\<close> are not
  among the sources. A failure that reaches the command layer is reported there and ends
  the invocation (\<open>CheckErr_exit\<close>); \<open>CheckErr\<close> of \<open>nil\<close> does nothing; a command without
  an invocation template shows the help of its subcommands (\<open>DefaultSubCommandRun\<close>).
\<close>

datatype invocation = DefaultSubCommandRun | CheckErr_exit error | Completed | Panic string

text \<open>
  The \<open>Run\<close> closure that \<open>NewCmdForPlugin\<close> gives the command. \<open>f\<close>, \<open>plugin\<close>,
  \<open>runner\<close> and the three streams are the captured variables, \<open>cmd\<close> and \<open>args\<close> the
  closure's parameters. A \<open>PluginRunner\<close> is its method \<open>Run\<close>, returning an outcome
  and a record of what it did; the second component of the result is \<open>None\<close> when the
  runner was not called.
\<close>

definition NewCmdForPlugin_Run ::
  "Factory \<Rightarrow> Plugin \<Rightarrow> (Plugin \<Rightarrow> RunningContext \<Rightarrow> outcome \<times> 't) \<Rightarrow>
   stream \<Rightarrow> stream \<Rightarrow> stream \<Rightarrow> Command \<Rightarrow> string list \<Rightarrow> invocation \<times> 't option" where
  "NewCmdForPlugin_Run f plugin runner in' out errout cmd args =
     (if length (Command plugin) = 0 then (DefaultSubCommandRun, None)
      else
        case ClientConfig f of
          (cfg, Some err) \<Rightarrow> (CheckErr_exit err, None)
        | (cfg, None) \<Rightarrow>
            (let runningEnvProvider = MultiRunningEnvProvider
                   [PluginCallerEnvProvider,
                    OSEnvProvider,
                    PluginDescriptorEnvProvider (Some plugin),
                    flagsPluginEnvProvider cmd,
                    factoryAttrsPluginEnvProvider f,
                    restClientConfigPluginEnvProvider cfg];
                 runningContext =
                   \<lparr>In = in', Out = out, ErrOut = errout, Args = args,
                    EnvProvider = runningEnvProvider, WorkingDir = Dir plugin\<rparr>
             in case runner plugin runningContext of
                  (Returned (Some err), t) \<Rightarrow> (CheckErr_exit err, Some t)
                | (Returned None, t) \<Rightarrow> (Completed, Some t)
                | (Panicked msg, t) \<Rightarrow> (Panic msg, Some t)))"

text \<open>
  \<open>NewCmdForPlugin\<close>: \<open>None\<close> is the nil pointer it returns for an invalid plugin. Each
  child plugin is bound by the recursive call and the result passed to \<open>AddCommand\<close>.
\<close>

fun NewCmdForPlugin :: "templates \<Rightarrow> Plugin \<Rightarrow> Command option" where
  "NewCmdForPlugin t (Plugin name shortDesc longDesc example command dir tree) =
     (if \<not> IsValid (Plugin name shortDesc longDesc example command dir tree) then None
      else Some (CobraCommand name shortDesc (templates_LongDesc t longDesc)
                   (templates_Examples t example)
                   (Plugin name shortDesc longDesc example command dir tree)
                   []
                   (map (NewCmdForPlugin t) tree)))"

section \<open>The spec's wording, for comparison\<close>

text \<open>
  The spec has the runner "tokenize the expanded template on whitespace": the tokens of
  a string are its maximal runs of characters that are not whitespace (space, tab, line
  feed, vertical tab, form feed, carriage return).
\<close>

definition spec_isSpace :: "char \<Rightarrow> bool" where
  "spec_isSpace c = (c = CHR '' '' \<or> (9 \<le> (of_char c :: nat) \<and> (of_char c :: nat) \<le> 13))"

fun spec_tokens_from :: "string \<Rightarrow> string \<Rightarrow> string list" where
  "spec_tokens_from cur [] = (if cur = [] then [] else [cur])"
| "spec_tokens_from cur (c # s) =
     (if spec_isSpace c then (if cur = [] then [] else [cur]) @ spec_tokens_from [] s
      else spec_tokens_from (cur @ [c]) s)"

definition spec_whitespace_tokens :: "string \<Rightarrow> string list" where
  "spec_whitespace_tokens s = spec_tokens_from [] s"

text \<open>
  The spec has each path segment of a field name "decomposed into word boundaries
  (transitions between lowercase/uppercase/digit runs) and rejoined with underscores,
  uppercased", where "sequences of uppercase letters such as an acronym must not be
  split letter-by-letter" and \<open>APIPath\<close> is \<open>API\<close> and \<open>Path\<close>. Between two adjacent
  characters \<open>a\<close> and \<open>b\<close>, followed by \<open>rest\<close>, there is a word boundary when they are
  of different classes, unless \<open>a\<close> is an uppercase letter and \<open>b\<close> a lowercase letter
  (the capital of a word and its second letter); and between two uppercase letters when
  the letter after \<open>b\<close> is lowercase, so that \<open>b\<close> is the capital of the next word and
  \<open>a\<close> the end of an acronym. \<open>spec_envPart\<close> writes a segment in uppercase with an
  underscore at each word boundary.
\<close>

definition word_boundary :: "char \<Rightarrow> char \<Rightarrow> string \<Rightarrow> bool" where
  "word_boundary a b rest =
     ((class_of a \<noteq> class_of b \<and> \<not> (IsUpper a \<and> IsLower b)) \<or>
      (IsUpper a \<and> IsUpper b \<and> (case rest of [] \<Rightarrow> False | c # _ \<Rightarrow> IsLower c)))"

fun spec_envPart :: "string \<Rightarrow> string" where
  "spec_envPart [] = []"
| "spec_envPart [a] = [toUpperByte a]"
| "spec_envPart (a # b # rest) =
     toUpperByte a # (if word_boundary a b rest then ''_'' else []) @ spec_envPart (b # rest)"

text \<open>
  The shape of a tree: the names at its nodes. \<open>plugin_shape\<close> is the shape of the
  valid part of a descriptor tree, \<open>command_shape\<close> the shape of a command tree.
\<close>

datatype shape = Absent | Node string "shape list"

fun plugin_shape :: "Plugin \<Rightarrow> shape" where
  "plugin_shape (Plugin name shortDesc longDesc example command dir tree) =
     (if name = [] then Absent else Node name (map plugin_shape tree))"

fun command_shape :: "Command option \<Rightarrow> shape" where
  "command_shape None = Absent"
| "command_shape (Some (CobraCommand use short long example run flags commands)) =
     Node use (map command_shape commands)"

section \<open>A concrete process, factory and plugin\<close>

text \<open>
  A process with two environment variables. The templates used below contain no \<open>$\<close>,
  so \<open>os.ExpandEnv\<close> returns them as they are; the one duration used is zero, which
  \<open>Duration.String\<close> renders as \<open>0s\<close>; running a command without a path fails, any other
  command exits with success.
\<close>

definition os0 :: os where
  "os0 = \<lparr>os_Environ = [''HOME=/root'', ''PATH=/bin''],
          os_Executable = (''/usr/local/bin/kubectl'', None),
          os_ExpandEnv = (\<lambda>s. s),
          Duration_String = (\<lambda>d. ''0s''),
          exec_Cmd_Run =
            (\<lambda>cmd. if exec_Path cmd = [] then Some (Errorf ''exec: no command'') else None)\<rparr>"

definition cfg0 :: Config where
  "cfg0 = \<lparr>Host = ''https://example.com'', APIPath = ''/api'', Prefix = [], Username = [],
           Password = [], BearerToken = [],
           Impersonate = \<lparr>UserName = [], Groups = []\<rparr>, Insecure = False,
           ServerName = [], CertFile = [], KeyFile = [], CAFile = [], CertData = [],
           KeyData = [], CAData = [], UserAgent = [], Timeout = 0\<rparr>"

definition factory0 :: Factory where
  "factory0 = \<lparr>ClientConfig = (cfg0, None), DefaultNamespace = (''default'', False, None)\<rparr>"

definition templates0 :: templates where
  "templates0 = \<lparr>templates_LongDesc = (\<lambda>s. s), templates_Examples = (\<lambda>s. s)\<rparr>"

definition status_plugin :: Plugin where
  "status_plugin = Plugin ''status'' ''Show status'' [] [] ''echo hello'' ''/plugins/status'' []"

definition status_command :: Command where
  "status_command = CobraCommand ''status'' ''Show status'' [] [] status_plugin [] []"

definition nameless_plugin :: Plugin where
  "nameless_plugin = Plugin [] ''No name'' [] [] ''echo hidden'' ''/plugins/hidden'' []"

text \<open>A plugin without an invocation template, with a valid and an invalid child.\<close>

definition cluster_plugin :: Plugin where
  "cluster_plugin = Plugin ''cluster'' ''Cluster commands'' [] [] [] ''/plugins/cluster''
     [status_plugin, nameless_plugin]"

text \<open>A template with a tab and with two adjacent spaces; one that starts with a space.\<close>

definition tab_plugin :: Plugin where
  "tab_plugin =
     Plugin ''tab'' ''Tabs'' [] [] (''echo'' @ [CHR 0x09] @ ''-n  hi'') ''/plugins/tab'' []"



definition ctx0 :: RunningContext where
  "ctx0 = \<lparr>In = 0, Out = 1, ErrOut = 2, Args = [''a b''], EnvProvider = OSEnvProvider,
           WorkingDir = ''/tmp''\<rparr>"

text \<open>A \<open>PluginRunner\<close> that starts nothing and hands back the context it was given.\<close>

definition recording_runner :: "Plugin \<Rightarrow> RunningContext \<Rightarrow> outcome \<times> RunningContext" where
  "recording_runner plugin ctx = (Returned None, ctx)"

section \<open>Notions used in the statements and proofs\<close>

text \<open>A capitalised word: an uppercase letter followed by one or more lowercase letters.\<close>

definition capitalised :: "string \<Rightarrow> bool" where
  "capitalised w =
     (case w of [] \<Rightarrow> False | u # l \<Rightarrow> IsUpper u \<and> l \<noteq> [] \<and> list_all IsLower l)"

text \<open>What one pass of the loop of \<open>FieldToEnvName\<close> appends for the segment \<open>s\<close>.\<close>

definition envPart :: "string \<Rightarrow> string" where
  "envPart s = ToUpper (Join (camelcase_Split s) ''_'')"

text \<open>The class runs of a sequence of capitalised words.\<close>

definition word_runs :: "string list \<Rightarrow> string list" where
  "word_runs ws = concat (map (\<lambda>w. [[hd w], tl w]) ws)"

text \<open>
  A run of one character class; a list of such runs in which adjacent runs are of
  different classes; and the words that a list of runs gives.
\<close>

definition uniform :: "string \<Rightarrow> bool" where
  "uniform r = (r \<noteq> [] \<and> (\<forall>c \<in> set r. class_of c = class_of (hd r)))"

fun alternating :: "string list \<Rightarrow> bool" where
  "alternating [] = True"
| "alternating [r] = uniform r"
| "alternating (r # q # runs) =
     (uniform r \<and> q \<noteq> [] \<and> class_of (hd r) \<noteq> class_of (hd q) \<and> alternating (q # runs))"

definition words_of :: "string list \<Rightarrow> string list" where
  "words_of runs = filter (\<lambda>s. s \<noteq> []) (upper_lower_fix runs)"

section \<open>Facts about the string functions\<close>

lemma toUpperByte_not_lower: "\<not> IsLower (toUpperByte c)"
  by (auto simp: toUpperByte_def IsLower_def)

lemma toUpperByte_dash: "toUpperByte c = CHR ''-'' \<longleftrightarrow> c = CHR ''-''"
proof
  assume h: "toUpperByte c = CHR ''-''"
  show "c = CHR ''-''"
  proof (cases "IsLower c")
    case True
    then have "(of_char (toUpperByte c) :: nat) = of_char c - 32"
      by (auto simp: toUpperByte_def IsLower_def)
    with h True show ?thesis by (auto simp: IsLower_def)
  next
    case False
    with h show ?thesis by (simp add: toUpperByte_def)
  qed
next
  assume "c = CHR ''-''"
  then show "toUpperByte c = CHR ''-''" by (simp add: toUpperByte_def IsLower_def)
qed

lemma not_lower_underscore: "\<not> IsLower CHR ''_''"
  by (simp add: IsLower_def)

lemma Split_from_not_Nil: "Split_from cur s sep \<noteq> []"
  by (induction s arbitrary: cur) auto

lemma Split_not_Nil: "Split s sep \<noteq> []"
  by (simp add: Split_def Split_from_not_Nil)

section \<open>The composite provider\<close>

text \<open>
  C1. In a composite provider over the list \<open>[a, b, c]\<close> where \<open>Env\<close> of \<open>b\<close> fails with
  \<open>err\<close>, the entries returned are empty, so none of \<open>a\<close> and none of \<open>c\<close> is among
  them, whatever \<open>a\<close> does; and when \<open>a\<close> succeeded, so that \<open>b\<close> is the first provider
  to fail, the error returned is \<open>err\<close>: the entries gathered from \<open>a\<close> are discarded.
\<close>

theorem MultiRunningEnvProvider_Env_failure:
  "snd (Env w b) = Some err \<Longrightarrow>
   fst (Env w (MultiRunningEnvProvider [a, b, c])) = [] \<and>
   (snd (Env w a) = None \<longrightarrow> Env w (MultiRunningEnvProvider [a, b, c]) = ([], Some err))"
  by (auto split: prod.splits option.splits)

theorem MultiRunningEnvProvider_Env_failure_witness:
  "snd (Env os0 (PluginDescriptorEnvProvider None)) =
     Some (Errorf ''plugin not present to extract env'') \<and>
   Env os0 OSEnvProvider = ([''HOME=/root'', ''PATH=/bin''], None) \<and>
   Env os0 (MultiRunningEnvProvider
              [OSEnvProvider, PluginDescriptorEnvProvider None, PluginCallerEnvProvider]) =
     ([], Some (Errorf ''plugin not present to extract env''))"
  using MultiRunningEnvProvider_Env_failure
    [of os0 "PluginDescriptorEnvProvider None" "Errorf ''plugin not present to extract env''"
        OSEnvProvider PluginCallerEnvProvider]
  by (simp add: PluginDescriptor_Env_def os0_def)

text \<open>
  C2. In a composite provider over the list \<open>[a, b]\<close> where both succeed, \<open>Env\<close>
  succeeds and returns the entries of \<open>a\<close>, in their order, followed at once by the
  entries of \<open>b\<close>, in their order.
\<close>

theorem MultiRunningEnvProvider_Env_success:
  "snd (Env w a) = None \<Longrightarrow> snd (Env w b) = None \<Longrightarrow>
   Env w (MultiRunningEnvProvider [a, b]) = (fst (Env w a) @ fst (Env w b), None)"
  by (auto split: prod.splits option.splits)

theorem MultiRunningEnvProvider_Env_success_witness:
  "Env os0 (MultiRunningEnvProvider [OSEnvProvider, PluginCallerEnvProvider]) =
     ([''HOME=/root'', ''PATH=/bin'', ''KUBECTL_PLUGINS_CALLER=/usr/local/bin/kubectl''], None)"
  using MultiRunningEnvProvider_Env_success [of os0 OSEnvProvider PluginCallerEnvProvider]
  by (simp add: os0_def Sprintf_kv_def)

text \<open>
  The same for a composite of any length: a failure leaves no entries, the first
  failure is the one returned, and without a failure the entries are those of the
  providers in list order.
\<close>

lemma MultiRunningEnvProvider_loop_failure_empty:
  "snd (MultiRunningEnvProvider_loop w ps env) \<noteq> None \<Longrightarrow>
   fst (MultiRunningEnvProvider_loop w ps env) = []"
  by (induction ps arbitrary: env) (auto split: prod.splits option.splits)

lemma MultiRunningEnvProvider_loop_prefix:
  "\<forall>p \<in> set ps. snd (Env w p) = None \<Longrightarrow>
   MultiRunningEnvProvider_loop w (ps @ rest) env =
   MultiRunningEnvProvider_loop w rest (env @ concat (map (\<lambda>p. fst (Env w p)) ps))"
  by (induction ps arbitrary: env) (auto split: prod.splits option.splits)

lemma MultiRunningEnvProvider_Env_first_failure:
  "\<forall>p \<in> set ps. snd (Env w p) = None \<Longrightarrow> snd (Env w b) = Some err \<Longrightarrow>
   Env w (MultiRunningEnvProvider (ps @ b # rest)) = ([], Some err)"
  by (auto simp: MultiRunningEnvProvider_loop_prefix split: prod.splits option.splits)

lemma MultiRunningEnvProvider_Env_all_succeed:
  "\<forall>p \<in> set ps. snd (Env w p) = None \<Longrightarrow>
   Env w (MultiRunningEnvProvider ps) = (concat (map (\<lambda>p. fst (Env w p)) ps), None)"
  using MultiRunningEnvProvider_loop_prefix [of ps w "[]" "[]"] by simp

section \<open>The process runner\<close>

text \<open>
  C3. For every plugin and running context, when \<open>Env\<close> of the context's provider fails
  with \<open>err\<close>, \<open>Run\<close> returns \<open>err\<close> and no child process is started.
\<close>

theorem Run_Env_failure:
  "snd (Env w (EnvProvider ctx)) = Some err \<Longrightarrow> Run w plugin ctx = (Returned (Some err), [])"
proof -
  assume fails: "snd (Env w (EnvProvider ctx)) = Some err"
  obtain base rest where "Split (os_ExpandEnv w (Command plugin)) CHR '' '' = base # rest"
    using Split_not_Nil by (cases "Split (os_ExpandEnv w (Command plugin)) CHR '' ''") auto
  with fails show ?thesis
    by (auto simp: Run_def Let_def split: prod.splits option.splits)
qed

theorem Run_Env_failure_witness:
  "Run os0 status_plugin
     \<lparr>In = 0, Out = 1, ErrOut = 2, Args = [''now''],
      EnvProvider = PluginDescriptorEnvProvider None, WorkingDir = ''/tmp''\<rparr> =
   (Returned (Some (Errorf ''plugin not present to extract env'')), [])"
  using Run_Env_failure
    [of os0 "\<lparr>In = 0, Out = 1, ErrOut = 2, Args = [''now''],
              EnvProvider = PluginDescriptorEnvProvider None, WorkingDir = ''/tmp''\<rparr>"
        "Errorf ''plugin not present to extract env''" status_plugin]
  by (simp add: PluginDescriptor_Env_def)

section \<open>The naming transform\<close>

text \<open>
  C7. For every flag name and every prefix, \<open>FlagToEnvName\<close> returns the prefix followed
  by a body that has one character for each character of the flag name after its
  leading \<open>--\<close> is trimmed: an underscore where the name has a dash, the uppercase of the
  character elsewhere. So the body has no dash, in particular no leading one, and no
  lowercase letter. The function has no failing path.
\<close>

theorem FlagToEnvName_upper_underscore:
  "\<exists>body. FlagToEnvName flagName prefix = prefix @ body \<and>
      length body = length (TrimPrefix flagName ''--'') \<and>
      (\<forall>i < length body.
         body ! i = (if TrimPrefix flagName ''--'' ! i = CHR ''-'' then CHR ''_''
                     else toUpperByte (TrimPrefix flagName ''--'' ! i))) \<and>
      CHR ''-'' \<notin> set body \<and>
      (\<forall>c \<in> set body. \<not> IsLower c) \<and>
      \<not> HasPrefix body ''-''"
proof -
  define name where "name = TrimPrefix flagName ''--''"
  define body where "body = Replace (ToUpper name) CHR ''-'' CHR ''_''"
  have eq: "FlagToEnvName flagName prefix = prefix @ body"
    by (simp add: FlagToEnvName_def body_def name_def)
  have len: "length body = length name"
    by (simp add: body_def Replace_def ToUpper_def)
  have nth: "\<forall>i < length body.
       body ! i = (if name ! i = CHR ''-'' then CHR ''_'' else toUpperByte (name ! i))"
    using len by (simp add: body_def Replace_def ToUpper_def toUpperByte_dash)
  have nodash: "CHR ''-'' \<notin> set body"
    by (auto simp: body_def Replace_def)
  have upper: "\<forall>c \<in> set body. \<not> IsLower c"
    by (auto simp: body_def Replace_def ToUpper_def toUpperByte_not_lower not_lower_underscore)
  have lead: "\<not> HasPrefix body ''-''"
  proof
    assume "HasPrefix body ''-''"
    then have "take 1 body = [CHR ''-'']" by (simp add: HasPrefix_def)
    then have "CHR ''-'' \<in> set (take 1 body)" by simp
    then have "CHR ''-'' \<in> set body" by (rule in_set_takeD)
    with nodash show False by simp
  qed
  from eq len nth nodash upper lead show ?thesis
    unfolding name_def by blast
qed

theorem FlagToEnvName_upper_underscore_witness:
  "FlagToEnvName ''--dry-run'' ''KUBECTL_PLUGINS_GLOBAL_FLAG_'' =
     ''KUBECTL_PLUGINS_GLOBAL_FLAG_DRY_RUN'' \<and>
   (\<exists>body. FlagToEnvName ''--dry-run'' ''KUBECTL_PLUGINS_GLOBAL_FLAG_'' =
              ''KUBECTL_PLUGINS_GLOBAL_FLAG_'' @ body \<and>
      length body = length (TrimPrefix ''--dry-run'' ''--'') \<and> CHR ''-'' \<notin> set body)"
proof -
  have "FlagToEnvName ''--dry-run'' ''KUBECTL_PLUGINS_GLOBAL_FLAG_'' =
          ''KUBECTL_PLUGINS_GLOBAL_FLAG_DRY_RUN''"
    by code_simp
  then show ?thesis
    using FlagToEnvName_upper_underscore [of "''--dry-run''" "''KUBECTL_PLUGINS_GLOBAL_FLAG_''"]
    by blast
qed

section \<open>The plugin-descriptor provider\<close>

text \<open>
  C9. \<open>Env\<close> of the plugin-descriptor provider fails if and only if its plugin is nil.
  Otherwise it succeeds with five entries, for the fields \<open>Name\<close>, \<open>ShortDesc\<close>,
  \<open>LongDesc\<close>, \<open>Example\<close> and \<open>Command\<close> in this order, each made by \<open>FieldToEnv\<close> under
  the prefix \<open>KUBECTL_PLUGINS_DESCRIPTOR_\<close>.
\<close>

theorem PluginDescriptorEnvProvider_Env:
  "(snd (Env w (PluginDescriptorEnvProvider p)) \<noteq> None \<longleftrightarrow> p = None) \<and>
   (\<forall>plugin. p = Some plugin \<longrightarrow>
      Env w (PluginDescriptorEnvProvider p) =
        ([FieldToEnv ''Name'' (Name plugin) ''KUBECTL_PLUGINS_DESCRIPTOR_'',
          FieldToEnv ''ShortDesc'' (ShortDesc plugin) ''KUBECTL_PLUGINS_DESCRIPTOR_'',
          FieldToEnv ''LongDesc'' (LongDesc plugin) ''KUBECTL_PLUGINS_DESCRIPTOR_'',
          FieldToEnv ''Example'' (Example plugin) ''KUBECTL_PLUGINS_DESCRIPTOR_'',
          FieldToEnv ''Command'' (Command plugin) ''KUBECTL_PLUGINS_DESCRIPTOR_''], None))"
  by (cases p) (simp_all add: PluginDescriptor_Env_def Let_def)

theorem PluginDescriptorEnvProvider_Env_witness:
  "Env os0 (PluginDescriptorEnvProvider (Some status_plugin)) =
     ([''KUBECTL_PLUGINS_DESCRIPTOR_NAME=status'',
       ''KUBECTL_PLUGINS_DESCRIPTOR_SHORT_DESC=Show status'',
       ''KUBECTL_PLUGINS_DESCRIPTOR_LONG_DESC='',
       ''KUBECTL_PLUGINS_DESCRIPTOR_EXAMPLE='',
       ''KUBECTL_PLUGINS_DESCRIPTOR_COMMAND=echo hello''], None)"
proof -
  have "FieldToEnv ''Name'' ''status'' ''KUBECTL_PLUGINS_DESCRIPTOR_'' =
          ''KUBECTL_PLUGINS_DESCRIPTOR_NAME=status''"
    and "FieldToEnv ''ShortDesc'' ''Show status'' ''KUBECTL_PLUGINS_DESCRIPTOR_'' =
          ''KUBECTL_PLUGINS_DESCRIPTOR_SHORT_DESC=Show status''"
    and "FieldToEnv ''LongDesc'' [] ''KUBECTL_PLUGINS_DESCRIPTOR_'' =
          ''KUBECTL_PLUGINS_DESCRIPTOR_LONG_DESC=''"
    and "FieldToEnv ''Example'' [] ''KUBECTL_PLUGINS_DESCRIPTOR_'' =
          ''KUBECTL_PLUGINS_DESCRIPTOR_EXAMPLE=''"
    and "FieldToEnv ''Command'' ''echo hello'' ''KUBECTL_PLUGINS_DESCRIPTOR_'' =
          ''KUBECTL_PLUGINS_DESCRIPTOR_COMMAND=echo hello''"
    by code_simp+
  then show ?thesis
    using PluginDescriptorEnvProvider_Env [of os0 "Some status_plugin"]
    by (simp add: status_plugin_def)
qed

section \<open>Facts about splitting and joining\<close>

lemma Join_Cons: "xs \<noteq> [] \<Longrightarrow> Join (a # xs) sep = a @ sep @ Join xs sep"
  by (cases xs) auto

lemma Join_Split_from: "Join (Split_from cur s sep) [sep] = cur @ s"
  by (induction s arbitrary: cur) (auto simp: Join_Cons Split_from_not_Nil)

lemma Join_Split: "Join (Split s sep) [sep] = s"
  by (simp add: Split_def Join_Split_from)

lemma Split_from_pieces:
  "sep \<notin> set cur \<Longrightarrow> piece \<in> set (Split_from cur s sep) \<Longrightarrow> sep \<notin> set piece"
proof (induction s arbitrary: cur)
  case Nil
  then show ?case by simp
next
  case (Cons c s)
  show ?case
  proof (cases "c = sep")
    case True
    with Cons.prems have "piece = cur \<or> piece \<in> set (Split_from [] s sep)" by simp
    then show ?thesis using Cons.prems(1) Cons.IH [of "[]"] by auto
  next
    case False
    with Cons.prems have "piece \<in> set (Split_from (cur @ [c]) s sep)" by simp
    moreover have "sep \<notin> set (cur @ [c])" using False Cons.prems(1) by simp
    ultimately show ?thesis using Cons.IH [of "cur @ [c]"] by blast
  qed
qed

lemma Split_pieces: "\<forall>piece \<in> set (Split s sep). sep \<notin> set piece"
  using Split_from_pieces [of sep "[]" _ s] by (auto simp: Split_def)

lemma upper_not_lower: "IsUpper c \<Longrightarrow> \<not> IsLower c"
  by (auto simp: IsUpper_def IsLower_def)
lemma class_of_upper: "IsUpper c \<Longrightarrow> class_of c = 2"
  by (simp add: class_of_def upper_not_lower)
lemma class_of_lower: "IsLower c \<Longrightarrow> class_of c = 1"
  by (simp add: class_of_def)
lemma upper_not_dot: "IsUpper c \<Longrightarrow> c \<noteq> CHR ''.''"
  by (auto simp: IsUpper_def)
lemma lower_not_dot: "IsLower c \<Longrightarrow> c \<noteq> CHR ''.''"
  by (auto simp: IsLower_def)
lemma toUpperByte_upper: "IsUpper c \<Longrightarrow> toUpperByte c = c"
  by (simp add: toUpperByte_def upper_not_lower)
lemma toUpperByte_underscore: "toUpperByte CHR ''_'' = CHR ''_''"
  by (simp add: toUpperByte_def IsLower_def)

lemma Split_from_append:
  "Split_from cur (a @ sep # b) sep = Split_from cur a sep @ Split_from [] b sep"
  by (induction a arbitrary: cur) auto

lemma Split_append: "Split (a @ sep # b) sep = Split a sep @ Split b sep"
  by (simp add: Split_def Split_from_append)

lemma Split_from_no_sep: "sep \<notin> set s \<Longrightarrow> Split_from cur s sep = [cur @ s]"
  by (induction s arbitrary: cur) auto

lemma Split_no_sep: "sep \<notin> set s \<Longrightarrow> Split s sep = [s]"
  by (simp add: Split_def Split_from_no_sep)

lemma Join_append:
  "xs \<noteq> [] \<Longrightarrow> ys \<noteq> [] \<Longrightarrow> Join (xs @ ys) sep = Join xs sep @ sep @ Join ys sep"
proof (induction xs)
  case Nil
  then show ?case by simp
next
  case (Cons x xs)
  show ?case
  proof (cases "xs = []")
    case True
    with Cons.prems show ?thesis by (simp add: Join_Cons)
  next
    case False
    with Cons show ?thesis by (simp add: Join_Cons)
  qed
qed

lemma Join_not_lower:
  "\<forall>x \<in> set xs. \<forall>c \<in> set x. \<not> IsLower c \<Longrightarrow> \<forall>c \<in> set (Join xs ''_''). \<not> IsLower c"
proof (induction xs)
  case Nil
  then show ?case by simp
next
  case (Cons x xs)
  then show ?case
    by (cases "xs = []") (auto simp: Join_Cons not_lower_underscore)
qed

lemma ToUpper_Join: "ToUpper (Join xs ''_'') = Join (map ToUpper xs) ''_''"
proof (induction xs)
  case Nil
  then show ?case by (simp add: ToUpper_def)
next
  case (Cons x xs)
  then show ?case
    by (cases "xs = []") (auto simp: Join_Cons ToUpper_def toUpperByte_underscore)
qed

lemma ToUpper_upper: "\<forall>c \<in> set s. IsUpper c \<Longrightarrow> ToUpper s = s"
  by (induction s) (auto simp: ToUpper_def toUpperByte_upper)

lemma FieldToEnvName_parts_map:
  "FieldToEnvName_parts parts segs = parts @ map envPart segs"
  by (induction segs arbitrary: parts) (auto simp: envPart_def Let_def)

lemma FieldToEnvName_eq:
  "FieldToEnvName fieldName prefix = prefix @ Join (map envPart (Split fieldName CHR ''.'')) ''_''"
  by (simp add: FieldToEnvName_def FieldToEnvName_parts_map)

lemma envPart_not_lower: "\<forall>c \<in> set (envPart s). \<not> IsLower c"
  by (auto simp: envPart_def ToUpper_def toUpperByte_not_lower)

lemma class_runs_head: "s \<noteq> [] \<Longrightarrow> \<exists>run runs. class_runs s = (hd s # run) # runs"
  by (cases s) (auto split: list.splits)

lemma class_runs_same_class:
  "r \<noteq> [] \<Longrightarrow> \<forall>c \<in> set r. class_of c = k \<Longrightarrow> rest = [] \<or> class_of (hd rest) \<noteq> k \<Longrightarrow>
   class_runs (r @ rest) = r # class_runs rest"
proof (induction r)
  case Nil
  then show ?case by simp
next
  case (Cons c r)
  show ?case
  proof (cases "r = []")
    case True
    show ?thesis
    proof (cases "rest = []")
      case True
      with \<open>r = []\<close> show ?thesis by simp
    next
      case False
      then obtain run runs where "class_runs rest = (hd rest # run) # runs"
        using class_runs_head by blast
      with False \<open>r = []\<close> Cons.prems show ?thesis by auto
    qed
  next
    case False
    then obtain d run where r: "r = d # run" by (cases r) auto
    have "class_runs (r @ rest) = r # class_runs rest"
      using Cons.IH False Cons.prems by simp
    with r Cons.prems show ?thesis by simp
  qed
qed

lemma class_runs_no_empty: "[] \<notin> set (class_runs s)"
  by (induction s) (auto split: list.splits)

lemma concat_class_runs: "concat (class_runs s) = s"
proof (induction s)
  case Nil
  then show ?case by simp
next
  case (Cons r s)
  then show ?case
    using class_runs_no_empty [of s] by (auto split: list.splits)
qed

lemma concat_upper_lower_fix: "concat (upper_lower_fix runs) = concat runs"
  by (induction runs rule: upper_lower_fix.induct) auto

lemma concat_filter_nonempty: "concat (filter (\<lambda>s. s \<noteq> []) xs) = concat xs"
  by (induction xs) auto

lemma concat_camelcase_Split: "concat (camelcase_Split s) = s"
  by (simp add: camelcase_Split_def concat_filter_nonempty concat_upper_lower_fix concat_class_runs)

lemma camelcase_Split_upper:
  assumes "s \<noteq> []" "\<forall>c \<in> set s. IsUpper c"
  shows "camelcase_Split s = [s]"
proof -
  have "class_runs (s @ []) = s # class_runs []"
    using assms by (intro class_runs_same_class [where k = 2]) (auto simp: class_of_upper)
  then show ?thesis using assms by (simp add: camelcase_Split_def)
qed

lemma capitalisedE:
  assumes "capitalised w"
  obtains u l where "w = u # l" "IsUpper u" "l \<noteq> []" "\<forall>c \<in> set l. IsLower c"
  using assms by (auto simp: capitalised_def list_all_iff split: list.splits)

lemma concat_caps_head:
  "\<forall>w \<in> set ws. capitalised w \<Longrightarrow> concat ws = [] \<or> class_of (hd (concat ws)) = 2"
proof (cases ws)
  case Nil
  then show ?thesis by simp
next
  case (Cons w ws')
  assume "\<forall>w \<in> set ws. capitalised w"
  with Cons have "capitalised w" by simp
  then obtain u l where "w = u # l" "IsUpper u" by (rule capitalisedE)
  with Cons show ?thesis by (simp add: class_of_upper)
qed

lemma class_runs_caps:
  "\<forall>w \<in> set ws. capitalised w \<Longrightarrow> class_runs (concat ws) = word_runs ws"
proof (induction ws)
  case Nil
  then show ?case by (simp add: word_runs_def)
next
  case (Cons w ws)
  then have "capitalised w" by simp
  then obtain u l where w: "w = u # l" and u: "IsUpper u" and l: "l \<noteq> []"
    and ll: "\<forall>c \<in> set l. IsLower c" by (rule capitalisedE)
  have rest: "concat ws = [] \<or> class_of (hd (concat ws)) \<noteq> 1"
    using concat_caps_head [of ws] Cons.prems by auto
  have "class_runs (l @ concat ws) = l # class_runs (concat ws)"
    using l ll rest by (intro class_runs_same_class [where k = 1]) (auto simp: class_of_lower)
  then have lr: "class_runs (l @ concat ws) = l # word_runs ws"
    using Cons by simp
  obtain d run where "l = d # run" using l by (cases l) auto
  with lr u ll w show ?case
    by (simp add: word_runs_def class_of_upper class_of_lower)
qed

lemma fix_after_word:
  "ws = [] \<or> capitalised (hd ws) \<Longrightarrow>
   upper_lower_fix (a # word_runs ws) = a # upper_lower_fix (word_runs ws)"
proof (cases ws)
  case Nil
  then show ?thesis by (simp add: word_runs_def)
next
  case (Cons w ws')
  assume "ws = [] \<or> capitalised (hd ws)"
  with Cons have "capitalised w" by simp
  then obtain u l where "w = u # l" "IsUpper u" by (rule capitalisedE)
  with Cons show ?thesis by (simp add: word_runs_def upper_not_lower)
qed

lemma fix_caps:
  "\<forall>w \<in> set ws. capitalised w \<Longrightarrow>
   upper_lower_fix (word_runs ws) = concat (map (\<lambda>w. [[], w]) ws)"
proof (induction ws)
  case Nil
  then show ?case by (simp add: word_runs_def)
next
  case (Cons w ws)
  then have "capitalised w" by simp
  then obtain u l where w: "w = u # l" and u: "IsUpper u" and l: "l \<noteq> []"
    and ll: "\<forall>c \<in> set l. IsLower c" by (rule capitalisedE)
  have hdl: "IsLower (hd l)" using l ll by (cases l) auto
  have next_ok: "ws = [] \<or> capitalised (hd ws)" using Cons.prems by (cases ws) auto
  have "upper_lower_fix (word_runs (w # ws)) = upper_lower_fix ([u] # l # word_runs ws)"
    by (simp add: word_runs_def w)
  also have "\<dots> = [] # upper_lower_fix ((u # l) # word_runs ws)"
    using u l hdl by simp
  also have "\<dots> = [] # (u # l) # upper_lower_fix (word_runs ws)"
    using fix_after_word [OF next_ok] by simp
  finally show ?case using Cons w by simp
qed

lemma filter_caps:
  "\<forall>w \<in> set ws. capitalised w \<Longrightarrow> filter (\<lambda>s. s \<noteq> []) (concat (map (\<lambda>w. [[], w]) ws)) = ws"
  by (induction ws) (auto elim: capitalisedE)

lemma camelcase_Split_caps:
  "\<forall>w \<in> set ws. capitalised w \<Longrightarrow> camelcase_Split (concat ws) = ws"
  by (simp add: camelcase_Split_def class_runs_caps fix_caps filter_caps)

lemma camelcase_Split_acronym_caps:
  assumes acr: "acr \<noteq> []" "\<forall>c \<in> set acr. IsUpper c"
    and ws: "ws \<noteq> []" "\<forall>w \<in> set ws. capitalised w"
  shows "camelcase_Split (acr @ concat ws) = acr # ws"
proof -
  obtain w ws' where wsc: "ws = w # ws'" using ws(1) by (cases ws) auto
  then have "capitalised w" using ws(2) by simp
  then obtain u l where w: "w = u # l" and u: "IsUpper u" and l: "l \<noteq> []"
    and ll: "\<forall>c \<in> set l. IsLower c" by (rule capitalisedE)
  have hdl: "IsLower (hd l)" using l ll by (cases l) auto
  have caps': "\<forall>w \<in> set ws'. capitalised w" using ws(2) wsc by simp
  have next_ok: "ws' = [] \<or> capitalised (hd ws')" using caps' by (cases ws') auto
  have rest: "concat ws' = [] \<or> class_of (hd (concat ws')) \<noteq> 1"
    using concat_caps_head [of ws'] caps' by auto
  have lr: "class_runs (l @ concat ws') = l # word_runs ws'"
    using class_runs_same_class [of l 1 "concat ws'"] l ll rest class_runs_caps [OF caps']
    by (auto simp: class_of_lower)
  have "class_runs ((acr @ [u]) @ (l @ concat ws')) = (acr @ [u]) # class_runs (l @ concat ws')"
    using acr u hdl l
    by (intro class_runs_same_class [where k = 2]) (auto simp: class_of_upper class_of_lower)
  then have runs: "class_runs (acr @ concat ws) = (acr @ [u]) # l # word_runs ws'"
    using lr by (simp add: wsc w)
  have hda: "IsUpper (hd (acr @ [u]))" using acr by (cases acr) auto
  have "upper_lower_fix ((acr @ [u]) # l # word_runs ws') =
          acr # upper_lower_fix ((u # l) # word_runs ws')"
    using hda hdl l by simp
  also have "\<dots> = acr # (u # l) # concat (map (\<lambda>w. [[], w]) ws')"
    using fix_after_word [OF next_ok] fix_caps [OF caps'] by simp
  finally show ?thesis
    using runs acr(1) filter_caps [OF caps'] by (simp add: camelcase_Split_def wsc w)
qed

section \<open>The argument vector of the child process\<close>

text \<open>
  C4, as stated, fails: the code splits the expanded template with
  \<open>strings.Split(_, " ")\<close>, at every space and at nothing else. On a template with a
  tab and two adjacent spaces the argument vector keeps the tab inside the base
  executable and has an empty argument, where tokenizing on whitespace gives the three
  tokens \<open>echo\<close>, \<open>-n\<close>, \<open>hi\<close>.
\<close>

theorem Run_whitespace_counterexample:
  "map exec_Args (snd (Run os0 tab_plugin ctx0)) =
     [[''echo'' @ [CHR 0x09] @ ''-n'', [], ''hi'', ''a b'']] \<and>
   spec_whitespace_tokens (os_ExpandEnv os0 (Command tab_plugin)) @ Args ctx0 =
     [''echo'', ''-n'', ''hi'', ''a b''] \<and>
   map exec_Args (snd (Run os0 tab_plugin ctx0)) \<noteq>
     [spec_whitespace_tokens (os_ExpandEnv os0 (Command tab_plugin)) @ Args ctx0]"
  by code_simp

text \<open>
  C4, amended. For every plugin and running context whose provider succeeds, \<open>Run\<close>
  expands the template with \<open>os.ExpandEnv\<close> of the current process and splits the
  result at each space character: the pieces, joined again by single spaces, are the
  expanded template, and no piece contains a space. The first piece is the base
  executable, the other pieces are the fixed leading arguments, and the context's
  arguments follow them unchanged. The child started is the one with this argument
  vector.
\<close>

theorem Run_argument_vector:
  "snd (Env w (EnvProvider ctx)) = None \<Longrightarrow>
   \<exists>base fixed cmd.
     Split (os_ExpandEnv w (Command plugin)) CHR '' '' = base # fixed \<and>
     Join (base # fixed) '' '' = os_ExpandEnv w (Command plugin) \<and>
     (\<forall>piece \<in> set (base # fixed). CHR '' '' \<notin> set piece) \<and>
     snd (Run w plugin ctx) = [cmd] \<and>
     exec_Path cmd = base \<and>
     exec_Args cmd = base # fixed @ Args ctx"
proof -
  assume ok: "snd (Env w (EnvProvider ctx)) = None"
  obtain base fixed where sp: "Split (os_ExpandEnv w (Command plugin)) CHR '' '' = base # fixed"
    using Split_not_Nil by (cases "Split (os_ExpandEnv w (Command plugin)) CHR '' ''") auto
  have j: "Join (base # fixed) '' '' = os_ExpandEnv w (Command plugin)"
    using Join_Split [of "os_ExpandEnv w (Command plugin)" "CHR '' ''"] sp by simp
  have pc: "\<forall>piece \<in> set (base # fixed). CHR '' '' \<notin> set piece"
    using Split_pieces [of "os_ExpandEnv w (Command plugin)" "CHR '' ''"] sp by simp
  obtain env where e: "Env w (EnvProvider ctx) = (env, None)"
    using ok by (cases "Env w (EnvProvider ctx)") auto
  have "\<exists>cmd. snd (Run w plugin ctx) = [cmd] \<and> exec_Path cmd = base \<and>
          exec_Args cmd = base # fixed @ Args ctx"
    using sp e by (cases fixed) (simp_all add: Run_def Let_def exec_Command_def)
  with sp j pc show ?thesis by blast
qed

theorem Run_argument_vector_witness:
  "snd (Env os0 (EnvProvider ctx0)) = None \<and>
   map exec_Args (snd (Run os0 status_plugin ctx0)) = [[''echo'', ''hello'', ''a b'']]"
proof -
  have ok: "snd (Env os0 (EnvProvider ctx0)) = None"
    by (simp add: ctx0_def)
  have sp: "Split (os_ExpandEnv os0 (Command status_plugin)) CHR '' '' = [''echo'', ''hello'']"
    by code_simp
  obtain base fixed cmd where
    "Split (os_ExpandEnv os0 (Command status_plugin)) CHR '' '' = base # fixed"
    "snd (Run os0 status_plugin ctx0) = [cmd]"
    "exec_Args cmd = base # fixed @ Args ctx0"
    using Run_argument_vector [OF ok, of status_plugin] by blast
  with sp ok show ?thesis by (auto simp: ctx0_def)
qed

section \<open>The command binder\<close>

text \<open>
  C5, as stated, fails: the list the closure builds has six providers, with the
  provider of the factory's attributes (the current namespace) between the flags
  provider and the connection-config provider. The runner is not handed the list of
  five.
\<close>

theorem NewCmdForPlugin_Run_five_providers_counterexample:
  "map_option EnvProvider
     (snd (NewCmdForPlugin_Run factory0 status_plugin recording_runner 0 1 2 status_command [])) \<noteq>
   Some (MultiRunningEnvProvider
          [PluginCallerEnvProvider, OSEnvProvider, PluginDescriptorEnvProvider (Some status_plugin),
           flagsPluginEnvProvider status_command, restClientConfigPluginEnvProvider cfg0])"
  by (simp add: NewCmdForPlugin_Run_def recording_runner_def factory0_def status_plugin_def)

text \<open>
  C5, amended. For every invocation of a bound plugin command that reaches the runner
  (the invocation template is not empty and the connection configuration was
  resolved), the runner is called with a context whose provider is the composite of,
  in this order: the caller-identity provider, the OS-environment provider, the
  plugin-descriptor provider of this plugin, the flags provider of the invoking
  command, the provider of the factory's attributes (the current namespace), and the
  connection-config provider.
\<close>

theorem NewCmdForPlugin_Run_providers:
  "Command plugin \<noteq> [] \<Longrightarrow> ClientConfig f = (cfg, None) \<Longrightarrow>
   snd (NewCmdForPlugin_Run f plugin runner in' out errout cmd args) =
     Some (snd (runner plugin
       \<lparr>In = in', Out = out, ErrOut = errout, Args = args,
        EnvProvider = MultiRunningEnvProvider
          [PluginCallerEnvProvider, OSEnvProvider, PluginDescriptorEnvProvider (Some plugin),
           flagsPluginEnvProvider cmd, factoryAttrsPluginEnvProvider f,
           restClientConfigPluginEnvProvider cfg],
        WorkingDir = Dir plugin\<rparr>))"
  by (auto simp: NewCmdForPlugin_Run_def Let_def split: prod.splits outcome.splits option.splits)

theorem NewCmdForPlugin_Run_providers_witness:
  "map_option EnvProvider
     (snd (NewCmdForPlugin_Run factory0 status_plugin recording_runner 0 1 2 status_command [])) =
   Some (MultiRunningEnvProvider
          [PluginCallerEnvProvider, OSEnvProvider, PluginDescriptorEnvProvider (Some status_plugin),
           flagsPluginEnvProvider status_command, factoryAttrsPluginEnvProvider factory0,
           restClientConfigPluginEnvProvider cfg0])"
  using NewCmdForPlugin_Run_providers
    [of status_plugin factory0 cfg0 recording_runner 0 1 2 status_command "[]"]
  by (simp add: recording_runner_def factory0_def status_plugin_def)

lemma NewCmdForPlugin_eq:
  "NewCmdForPlugin t p =
     (if \<not> IsValid p then None
      else Some (CobraCommand (Name p) (ShortDesc p) (templates_LongDesc t (LongDesc p))
                   (templates_Examples t (Example p)) p [] (map (NewCmdForPlugin t) (Tree p))))"
  by (cases p) simp

lemma command_shape_NewCmdForPlugin: "command_shape (NewCmdForPlugin t p) = plugin_shape p"
  by (induction p) (auto simp: IsValid_def)

text \<open>
  C6. A descriptor with an empty name is bound to no command. A descriptor named
  \<open>status\<close> with a non-empty invocation template and no children is bound to one
  command, named \<open>status\<close>, without subcommands. The command of a valid descriptor has
  the descriptor's name, and its subcommands are what binding gives for the children,
  one by one in their order; so the command tree has the shape of the descriptor tree,
  every subtree under an empty name left out.
\<close>

theorem NewCmdForPlugin_binding:
  "(Name p = [] \<longrightarrow> NewCmdForPlugin t p = None) \<and>
   (Name p = ''status'' \<and> Command p \<noteq> [] \<and> Tree p = [] \<longrightarrow>
      (\<exists>c. NewCmdForPlugin t p = Some c \<and> cobra_Use c = ''status'' \<and> cobra_commands c = [])) \<and>
   (IsValid p \<longrightarrow>
      (\<exists>c. NewCmdForPlugin t p = Some c \<and> cobra_Use c = Name p \<and>
           cobra_commands c = map (NewCmdForPlugin t) (Tree p))) \<and>
   command_shape (NewCmdForPlugin t p) = plugin_shape p"
proof -
  have "command_shape (NewCmdForPlugin t p) = plugin_shape p"
    by (rule command_shape_NewCmdForPlugin)
  then show ?thesis
    by (simp add: NewCmdForPlugin_eq IsValid_def del: NewCmdForPlugin.simps)
qed

theorem NewCmdForPlugin_binding_witness:
  "NewCmdForPlugin templates0 status_plugin = Some status_command \<and>
   NewCmdForPlugin templates0 nameless_plugin = None \<and>
   command_shape (NewCmdForPlugin templates0 cluster_plugin) =
     Node ''cluster'' [Node ''status'' [], Absent]"
  using NewCmdForPlugin_binding [of status_plugin templates0]
    NewCmdForPlugin_binding [of nameless_plugin templates0]
    NewCmdForPlugin_binding [of cluster_plugin templates0]
  by (simp add: status_plugin_def nameless_plugin_def cluster_plugin_def status_command_def
      templates0_def IsValid_def)




section \<open>Field names\<close>

lemma capitalised_no_dot: "capitalised w \<Longrightarrow> CHR ''.'' \<notin> set w"
proof -
  assume "capitalised w"
  then obtain u l where "w = u # l" "IsUpper u" "\<forall>c \<in> set l. IsLower c"
    by (rule capitalisedE)
  then show ?thesis
    using upper_not_dot [of u] lower_not_dot by auto
qed

lemma caps_no_dot: "\<forall>w \<in> set ws. capitalised w \<Longrightarrow> CHR ''.'' \<notin> set (concat ws)"
  by (auto dest: capitalised_no_dot)

lemma upper_no_dot: "\<forall>c \<in> set s. IsUpper c \<Longrightarrow> CHR ''.'' \<notin> set s"
  by (auto dest: upper_not_dot)

lemma class_lower_iff: "class_of c = 1 \<longleftrightarrow> IsLower c"
  by (simp add: class_of_def)

lemma class_upper_iff: "class_of c = 2 \<longleftrightarrow> IsUpper c"
  by (auto simp: class_of_def upper_not_lower)

lemma same_class_upper: "class_of a = class_of b \<Longrightarrow> IsUpper a = IsUpper b"
  using class_upper_iff by metis

lemma same_class_lower: "class_of a = class_of b \<Longrightarrow> IsLower a = IsLower b"
  using class_lower_iff by metis

lemma alternating_class_runs: "alternating (class_runs s)"
proof (induction s)
  case Nil
  then show ?case by simp
next
  case (Cons r s)
  show ?case
  proof (cases "class_runs s")
    case Nil
    then show ?thesis by (simp add: uniform_def)
  next
    case (Cons run runs)
    then have "run \<noteq> []" using class_runs_no_empty [of s] by auto
    then obtain d run' where run: "run = d # run'" by (cases run) auto
    have alt: "alternating ((d # run') # runs)" using Cons.IH Cons run by simp
    show ?thesis
    proof (cases "class_of r = class_of d")
      case True
      have "uniform (d # run')" using alt by (cases runs) simp_all
      then have "uniform (r # d # run')" using True by (simp add: uniform_def)
      then have "alternating ((r # d # run') # runs)"
        using alt True by (cases runs) simp_all
      then show ?thesis using Cons run True by simp
    next
      case False
      have "uniform (d # run')" using alt by (cases runs) simp_all
      then have "alternating ([r] # (d # run') # runs)"
        using alt False by (simp add: uniform_def)
      then show ?thesis using Cons run False by simp
    qed
  qed
qed

lemma camelcase_Split_words_of: "camelcase_Split s = words_of (class_runs s)"
  by (simp add: camelcase_Split_def words_of_def)

lemma words_of_single: "x \<noteq> [] \<Longrightarrow> words_of [x] = [x]"
  by (simp add: words_of_def)

lemma alternating_tail: "alternating (r # runs) \<Longrightarrow> alternating runs"
  by (cases runs) simp_all

lemma alternating_head: "alternating (r # runs) \<Longrightarrow> uniform r"
  by (cases runs) simp_all

lemma upper_lower_fix_keep:
  "runs = [] \<or> \<not> IsLower (hd (hd runs)) \<Longrightarrow>
   upper_lower_fix (x # runs) = x # upper_lower_fix runs"
  by (cases runs) auto

lemma words_of_step:
  assumes alt: "alternating (r2 # runs)" and x: "x \<noteq> []"
  shows "words_of (x # r2 # runs) =
           (if IsUpper (hd x) \<and> IsLower (hd r2)
            then (if butlast x = [] then [] else [butlast x]) @ (last x # r2) # words_of runs
            else x # words_of (r2 # runs))"
proof (cases "IsUpper (hd x) \<and> IsLower (hd r2)")
  case True
  have r2: "r2 \<noteq> []" using alternating_head [OF alt] by (simp add: uniform_def)
  have next_ok: "runs = [] \<or> \<not> IsLower (hd (hd runs))"
  proof (cases runs)
    case Nil
    then show ?thesis by simp
  next
    case (Cons r3 runs')
    with alt have "class_of (hd r2) \<noteq> class_of (hd r3)" by simp
    moreover have "class_of (hd r2) = 1" using True by (simp add: class_of_lower)
    ultimately have "\<not> IsLower (hd r3)" using class_of_lower [of "hd r3"] by auto
    with Cons show ?thesis by simp
  qed
  have "upper_lower_fix (x # r2 # runs) = butlast x # upper_lower_fix ((last x # r2) # runs)"
    using True x r2 by simp
  also have "\<dots> = butlast x # (last x # r2) # upper_lower_fix runs"
    using upper_lower_fix_keep [OF next_ok] by simp
  finally show ?thesis using True by (simp add: words_of_def)
next
  case False
  then have eq: "upper_lower_fix (x # r2 # runs) = x # upper_lower_fix (r2 # runs)" by auto
  show ?thesis unfolding words_of_def eq using False x by auto
qed

lemma words_of_Nil: "words_of [] = []"
  by (simp add: words_of_def)

lemma camelcase_Split_Cons:
  "\<exists>p ps. camelcase_Split (b # rest) = p # ps \<and>
     camelcase_Split (a # b # rest) =
       (if word_boundary a b rest then [a] # p # ps else (a # p) # ps)"
proof -
  define nxt where "nxt = (case rest of [] \<Rightarrow> False | c # _ \<Rightarrow> IsLower c)"
  obtain r1 runs where R: "class_runs (b # rest) = (b # r1) # runs"
    using class_runs_head [of "b # rest"] by auto
  have alt: "alternating ((b # r1) # runs)"
    using alternating_class_runs [of "b # rest"] R by simp
  have u: "uniform (b # r1)" using alt by (rule alternating_head)
  have alt': "alternating runs" using alt by (rule alternating_tail)
  have rest_eq: "rest = r1 @ concat runs"
    using concat_class_runs [of "b # rest"] R by simp
  have Ra: "class_runs (a # b # rest) =
      (if class_of a = class_of b then (a # b # r1) # runs else [a] # (b # r1) # runs)"
    using R by simp
  have wb: "word_boundary a b rest \<longleftrightarrow>
      (class_of a \<noteq> class_of b \<and> \<not> (IsUpper a \<and> IsLower b)) \<or> (IsUpper a \<and> IsUpper b \<and> nxt)"
    by (simp add: word_boundary_def nxt_def)
  have N1: "nxt = IsLower b" if ne: "r1 \<noteq> []"
  proof -
    obtain d r1' where r1: "r1 = d # r1'" using ne by (cases r1) auto
    then have "class_of d = class_of b" using u by (simp add: uniform_def)
    then have "IsLower d = IsLower b" by (rule same_class_lower)
    then show ?thesis using r1 rest_eq by (simp add: nxt_def)
  qed
  show ?thesis
  proof (cases runs)
    case Nil
    have sb: "camelcase_Split (b # rest) = [b # r1]"
      using R Nil by (simp add: camelcase_Split_words_of words_of_single)
    have N2: "nxt = False" if "r1 = []"
      using that Nil rest_eq by (simp add: nxt_def)
    show ?thesis
    proof (cases "class_of a = class_of b")
      case True
      have sa: "camelcase_Split (a # b # rest) = [a # b # r1]"
        using Ra Nil True by (simp add: camelcase_Split_words_of words_of_single)
      have "\<not> word_boundary a b rest"
        using True N1 N2 by (cases "r1 = []") (auto simp: wb dest: upper_not_lower)
      then show ?thesis using sa sb by simp
    next
      case False
      have "alternating [b # r1]" using u by simp
      then have sa: "camelcase_Split (a # b # rest) =
          (if IsUpper a \<and> IsLower b then [a # b # r1] else [[a], b # r1])"
        using Ra Nil False words_of_step [of "b # r1" "[]" "[a]"]
        by (simp add: camelcase_Split_words_of words_of_single words_of_Nil)
      have "word_boundary a b rest \<longleftrightarrow> \<not> (IsUpper a \<and> IsLower b)"
        using False same_class_upper [of a b] class_of_upper [of a] class_of_upper [of b]
        by (auto simp: wb)
      then show ?thesis using sa sb by simp
    qed
  next
    case (Cons r2 runs')
    have alt2: "alternating (r2 # runs')" using alt' Cons by simp
    have r2: "r2 \<noteq> []" using alternating_head [OF alt2] by (simp add: uniform_def)
    have diff: "class_of b \<noteq> class_of (hd r2)" using alt Cons by simp
    have N3: "nxt = IsLower (hd r2)" if "r1 = []"
      using that Cons rest_eq r2 by (cases r2) (simp_all add: nxt_def)
    have sb: "camelcase_Split (b # rest) =
        (if IsUpper b \<and> IsLower (hd r2)
         then (if r1 = [] then [] else [butlast (b # r1)]) @
              (last (b # r1) # r2) # words_of runs'
         else (b # r1) # words_of (r2 # runs'))"
      using R Cons words_of_step [OF alt2, of "b # r1"]
      by (simp add: camelcase_Split_words_of)
    show ?thesis
    proof (cases "class_of a = class_of b")
      case True
      then have ab: "IsUpper a = IsUpper b" by (rule same_class_upper)
      have sa: "camelcase_Split (a # b # rest) =
          (if IsUpper b \<and> IsLower (hd r2)
           then (a # butlast (b # r1)) # (last (b # r1) # r2) # words_of runs'
           else (a # b # r1) # words_of (r2 # runs'))"
        using Ra Cons True ab words_of_step [OF alt2, of "a # b # r1"]
        by (simp add: camelcase_Split_words_of)
      show ?thesis
      proof (cases "IsUpper b \<and> IsLower (hd r2)")
        case cond: True
        show ?thesis
        proof (cases "r1 = []")
          case True
          then have "word_boundary a b rest"
            using cond ab N3 by (simp add: wb)
          then show ?thesis using sa sb cond True by simp
        next
          case False
          then have "\<not> word_boundary a b rest"
            using cond ab N1 \<open>class_of a = class_of b\<close> by (auto simp: wb dest: upper_not_lower)
          then show ?thesis using sa sb cond False by simp
        qed
      next
        case ncond: False
        have "\<not> word_boundary a b rest"
          using ncond ab N1 N3 \<open>class_of a = class_of b\<close>
          by (cases "r1 = []") (auto simp: wb dest: upper_not_lower)
        then show ?thesis using sa sb ncond by auto
      qed
    next
      case False
      have altb: "alternating ((b # r1) # r2 # runs')" using alt Cons by simp
      have sa: "camelcase_Split (a # b # rest) =
          (if IsUpper a \<and> IsLower b
           then (a # b # r1) # words_of (r2 # runs')
           else [a] # camelcase_Split (b # rest))"
        using Ra Cons False R words_of_step [OF altb, of "[a]"]
        by (simp add: camelcase_Split_words_of)
      have wbe: "word_boundary a b rest \<longleftrightarrow> \<not> (IsUpper a \<and> IsLower b)"
        using False same_class_upper [of a b] class_of_upper [of a] class_of_upper [of b]
        by (auto simp: wb)
      show ?thesis
      proof (cases "IsUpper a \<and> IsLower b")
        case True
        then have "\<not> IsUpper b" using upper_not_lower by blast
        then show ?thesis using sa sb True wbe by simp
      next
        case False
        then show ?thesis using sa sb wbe by auto
      qed
    qed
  qed
qed

lemma camelcase_Split_Nil: "camelcase_Split [] = []"
  by (simp add: camelcase_Split_def)

lemma camelcase_Split_single: "camelcase_Split [c] = [[c]]"
  by (simp add: camelcase_Split_def)

lemma Join_Cons_Cons: "Join ((c # p) # ps) sep = c # Join (p # ps) sep"
  by (cases ps) auto

lemma envPart_spec_envPart: "envPart s = spec_envPart s"
proof (induction s rule: spec_envPart.induct)
  case 1
  then show ?case by (simp add: envPart_def camelcase_Split_Nil ToUpper_def)
next
  case (2 a)
  then show ?case by (simp add: envPart_def camelcase_Split_single ToUpper_def)
next
  case (3 a b rest)
  obtain p ps where sb: "camelcase_Split (b # rest) = p # ps"
    and sa: "camelcase_Split (a # b # rest) =
      (if word_boundary a b rest then [a] # p # ps else (a # p) # ps)"
    using camelcase_Split_Cons [of b rest a] by blast
  have ih: "ToUpper (Join (p # ps) ''_'') = spec_envPart (b # rest)"
    using "3.IH" sb by (simp add: envPart_def)
  show ?case
  proof (cases "word_boundary a b rest")
    case True
    then have "envPart (a # b # rest) = ToUpper ([a] @ ''_'' @ Join (p # ps) ''_'')"
      using sa by (simp add: envPart_def)
    also have "\<dots> = toUpperByte a # CHR ''_'' # ToUpper (Join (p # ps) ''_'')"
      by (simp add: ToUpper_def toUpperByte_underscore)
    finally show ?thesis using True ih by simp
  next
    case False
    then have "envPart (a # b # rest) = ToUpper (a # Join (p # ps) ''_'')"
      using sa by (simp add: envPart_def Join_Cons_Cons)
    also have "\<dots> = toUpperByte a # ToUpper (Join (p # ps) ''_'')"
      by (simp add: ToUpper_def)
    finally show ?thesis using False ih by simp
  qed
qed

lemma FieldToEnvName_spec_envPart:
  "FieldToEnvName fieldName prefix = prefix @ Join (map spec_envPart (Split fieldName CHR ''.'')) ''_''"
proof -
  have "envPart = spec_envPart"
    by (rule ext) (rule envPart_spec_envPart)
  then show ?thesis by (simp add: FieldToEnvName_eq)
qed

lemma word_boundary_upper:
  "IsUpper c \<Longrightarrow> IsUpper d \<Longrightarrow> word_boundary c d rest \<longleftrightarrow> rest \<noteq> [] \<and> IsLower (hd rest)"
  by (cases rest) (auto simp: word_boundary_def class_of_upper)

lemma FieldToEnvName_shapes:
  "FieldToEnvName (a @ ''.'' @ b) prefix = FieldToEnvName a prefix @ ''_'' @ FieldToEnvName b [] \<and>
   take (length prefix) (FieldToEnvName fieldName prefix) = prefix \<and>
   (\<forall>c \<in> set (drop (length prefix) (FieldToEnvName fieldName prefix)). \<not> IsLower c) \<and>
   (s \<noteq> [] \<and> (\<forall>c \<in> set s. IsUpper c) \<longrightarrow> FieldToEnvName s prefix = prefix @ s) \<and>
   ((\<forall>w \<in> set ws. capitalised w) \<longrightarrow>
      FieldToEnvName (concat ws) prefix = prefix @ Join (map ToUpper ws) ''_'') \<and>
   (s \<noteq> [] \<and> (\<forall>c \<in> set s. IsUpper c) \<and> ws \<noteq> [] \<and> (\<forall>w \<in> set ws. capitalised w) \<longrightarrow>
      FieldToEnvName (s @ concat ws) prefix = prefix @ s @ ''_'' @ Join (map ToUpper ws) ''_'')"
proof (intro conjI impI)
  show "FieldToEnvName (a @ ''.'' @ b) prefix =
          FieldToEnvName a prefix @ ''_'' @ FieldToEnvName b []"
    using Split_append [of a "CHR ''.''" b]
    by (simp add: FieldToEnvName_eq Join_append Split_not_Nil)
next
  show "take (length prefix) (FieldToEnvName fieldName prefix) = prefix"
    by (simp add: FieldToEnvName_eq)
next
  show "\<forall>c \<in> set (drop (length prefix) (FieldToEnvName fieldName prefix)). \<not> IsLower c"
    using Join_not_lower [of "map envPart (Split fieldName CHR ''.'')"] envPart_not_lower
    by (simp add: FieldToEnvName_eq)
next
  assume h: "s \<noteq> [] \<and> (\<forall>c \<in> set s. IsUpper c)"
  then have "Split s CHR ''.'' = [s]"
    by (intro Split_no_sep upper_no_dot) simp
  moreover have "envPart s = s"
    using h by (simp add: envPart_def camelcase_Split_upper ToUpper_upper)
  ultimately show "FieldToEnvName s prefix = prefix @ s"
    by (simp add: FieldToEnvName_eq)
next
  assume h: "\<forall>w \<in> set ws. capitalised w"
  then have "Split (concat ws) CHR ''.'' = [concat ws]"
    by (intro Split_no_sep caps_no_dot)
  moreover have "envPart (concat ws) = Join (map ToUpper ws) ''_''"
    using h by (simp add: envPart_def camelcase_Split_caps ToUpper_Join)
  ultimately show "FieldToEnvName (concat ws) prefix = prefix @ Join (map ToUpper ws) ''_''"
    by (simp add: FieldToEnvName_eq)
next
  assume h: "s \<noteq> [] \<and> (\<forall>c \<in> set s. IsUpper c) \<and> ws \<noteq> [] \<and> (\<forall>w \<in> set ws. capitalised w)"
  then have "CHR ''.'' \<notin> set (s @ concat ws)"
    using upper_no_dot [of s] caps_no_dot [of ws] by simp
  then have "Split (s @ concat ws) CHR ''.'' = [s @ concat ws]"
    by (rule Split_no_sep)
  moreover have "envPart (s @ concat ws) = s @ ''_'' @ Join (map ToUpper ws) ''_''"
  proof -
    have "camelcase_Split (s @ concat ws) = s # ws"
      using h by (intro camelcase_Split_acronym_caps) simp_all
    then have "envPart (s @ concat ws) = Join (map ToUpper (s # ws)) ''_''"
      by (simp only: envPart_def ToUpper_Join)
    also have "\<dots> = ToUpper s @ ''_'' @ Join (map ToUpper ws) ''_''"
      using h by (simp add: Join_Cons)
    finally show ?thesis using h by (simp add: ToUpper_upper)
  qed
  ultimately show "FieldToEnvName (s @ concat ws) prefix =
      prefix @ s @ ''_'' @ Join (map ToUpper ws) ''_''"
    by (simp add: FieldToEnvName_eq)
qed

text \<open>
  C8. For every field name and prefix, \<open>FieldToEnvName\<close> returns the prefix followed by
  the segments between the dots, in their order, joined by underscores, each segment
  written in uppercase with an underscore at each of its word boundaries and nowhere
  else. The word boundaries are those of \<open>word_boundary\<close>: inside a run of uppercase
  letters there is none, except before the last letter of the run when a lowercase
  letter follows it; so \<open>APIPath\<close> gives \<open>API_PATH\<close> and \<open>TimeoutMS\<close> gives
  \<open>TIMEOUT_MS\<close>. The split of a segment into words is determined character by
  character by the same boundaries. In particular: a name \<open>a.b\<close> is transformed into
  the transform of \<open>a\<close>, an underscore, and the transform of \<open>b\<close> under no prefix;
  nothing after the prefix is a lowercase letter; a segment of uppercase letters is one
  word; capitalised words are separated by underscores, also after an acronym.
\<close>

theorem FieldToEnvName_segments_words:
  "FieldToEnvName fieldName prefix =
     prefix @ Join (map spec_envPart (Split fieldName CHR ''.'')) ''_'' \<and>
   camelcase_Split [] = [] \<and>
   camelcase_Split [x] = [[x]] \<and>
   (\<exists>p ps. camelcase_Split (y # rest) = p # ps \<and>
      camelcase_Split (x # y # rest) =
        (if word_boundary x y rest then [x] # p # ps else (x # p) # ps)) \<and>
   (IsUpper x \<and> IsUpper y \<longrightarrow>
      (word_boundary x y rest \<longleftrightarrow> rest \<noteq> [] \<and> IsLower (hd rest))) \<and>
   FieldToEnvName (a @ ''.'' @ b) prefix = FieldToEnvName a prefix @ ''_'' @ FieldToEnvName b [] \<and>
   take (length prefix) (FieldToEnvName fieldName prefix) = prefix \<and>
   (\<forall>c \<in> set (drop (length prefix) (FieldToEnvName fieldName prefix)). \<not> IsLower c) \<and>
   (s \<noteq> [] \<and> (\<forall>c \<in> set s. IsUpper c) \<longrightarrow> FieldToEnvName s prefix = prefix @ s) \<and>
   ((\<forall>w \<in> set ws. capitalised w) \<longrightarrow>
      FieldToEnvName (concat ws) prefix = prefix @ Join (map ToUpper ws) ''_'') \<and>
   (s \<noteq> [] \<and> (\<forall>c \<in> set s. IsUpper c) \<and> ws \<noteq> [] \<and> (\<forall>w \<in> set ws. capitalised w) \<longrightarrow>
      FieldToEnvName (s @ concat ws) prefix = prefix @ s @ ''_'' @ Join (map ToUpper ws) ''_'')"
  using FieldToEnvName_shapes [of a b prefix fieldName s ws]
    FieldToEnvName_spec_envPart [of fieldName prefix] camelcase_Split_Nil
    camelcase_Split_single [of x] camelcase_Split_Cons [of y rest x]
    word_boundary_upper [of x y rest]
  by blast

theorem FieldToEnvName_segments_words_witness:
  "FieldToEnvName ''Impersonate.Groups'' ''KUBECTL_PLUGINS_REST_CLIENT_CONFIG_'' =
     ''KUBECTL_PLUGINS_REST_CLIENT_CONFIG_IMPERSONATE_GROUPS'' \<and>
   FieldToEnvName ''APIPath'' ''KUBECTL_PLUGINS_REST_CLIENT_CONFIG_'' =
     ''KUBECTL_PLUGINS_REST_CLIENT_CONFIG_API_PATH'' \<and>
   FieldToEnvName ''APIPath'' [] \<noteq> ''A_P_I_PATH'' \<and>
   FieldToEnvName ''ShortDesc'' ''KUBECTL_PLUGINS_DESCRIPTOR_'' =
     ''KUBECTL_PLUGINS_DESCRIPTOR_SHORT_DESC'' \<and>
   FieldToEnvName ''CA'' [] = ''CA'' \<and>
   FieldToEnvName ''TimeoutMS'' [] = ''TIMEOUT_MS'' \<and>
   FieldToEnvName ''UserID'' [] = ''USER_ID'' \<and>
   FieldToEnvName ''Impersonate.UserName'' ''P_'' = ''P_IMPERSONATE_USER_NAME'' \<and>
   camelcase_Split ''rID'' = [''r'', ''ID'']"
proof -
  let ?P = "''KUBECTL_PLUGINS_REST_CLIENT_CONFIG_''"
  have up: "''API'' \<noteq> [] \<and> (\<forall>c \<in> set ''API''. IsUpper c)"
    and up2: "''CA'' \<noteq> [] \<and> (\<forall>c \<in> set ''CA''. IsUpper c)"
    and w1: "[''Path''] \<noteq> [] \<and> (\<forall>w \<in> set [''Path'']. capitalised w)"
    and w2: "\<forall>w \<in> set [''Short'', ''Desc'']. capitalised w"
    by code_simp+
  have j1: "Join (map ToUpper [''Path'']) ''_'' = ''PATH''"
    and j2: "Join (map ToUpper [''Short'', ''Desc'']) ''_'' = ''SHORT_DESC''"
    and g: "FieldToEnvName ''Groups'' [] = ''GROUPS''"
    and i: "FieldToEnvName ''Impersonate'' ?P = ''KUBECTL_PLUGINS_REST_CLIENT_CONFIG_IMPERSONATE''"
    by code_simp+
  have t: "Join (map spec_envPart (Split ''TimeoutMS'' CHR ''.'')) ''_'' = ''TIMEOUT_MS''"
    and u: "Join (map spec_envPart (Split ''UserID'' CHR ''.'')) ''_'' = ''USER_ID''"
    and n: "Join (map spec_envPart (Split ''Impersonate.UserName'' CHR ''.'')) ''_'' =
              ''IMPERSONATE_USER_NAME''"
    and wb: "word_boundary CHR ''r'' CHR ''I'' ''D''"
    and id: "camelcase_Split ''ID'' = [''ID'']"
    by code_simp+
  have a: "FieldToEnvName (''Impersonate'' @ ''.'' @ ''Groups'') ?P =
             FieldToEnvName ''Impersonate'' ?P @ ''_'' @ FieldToEnvName ''Groups'' []"
    using FieldToEnvName_segments_words
      [where a = "''Impersonate''" and b = "''Groups''" and prefix = ?P] by blast
  have b: "FieldToEnvName (''API'' @ concat [''Path'']) ?P =
             ?P @ ''API'' @ ''_'' @ Join (map ToUpper [''Path'']) ''_''"
    using FieldToEnvName_segments_words
      [where prefix = ?P and s = "''API''" and ws = "[''Path'']"] up w1 by blast
  have b': "FieldToEnvName (''API'' @ concat [''Path'']) [] =
             [] @ ''API'' @ ''_'' @ Join (map ToUpper [''Path'']) ''_''"
    using FieldToEnvName_segments_words
      [where prefix = "[]" and s = "''API''" and ws = "[''Path'']"] up w1 by blast
  have c: "FieldToEnvName (concat [''Short'', ''Desc'']) ''KUBECTL_PLUGINS_DESCRIPTOR_'' =
             ''KUBECTL_PLUGINS_DESCRIPTOR_'' @ Join (map ToUpper [''Short'', ''Desc'']) ''_''"
    using FieldToEnvName_segments_words
      [where prefix = "''KUBECTL_PLUGINS_DESCRIPTOR_''" and ws = "[''Short'', ''Desc'']"] w2
    by blast
  have d: "FieldToEnvName ''CA'' [] = [] @ ''CA''"
    using FieldToEnvName_segments_words [where prefix = "[]" and s = "''CA''"] up2 by blast
  have e: "FieldToEnvName ''TimeoutMS'' [] =
             [] @ Join (map spec_envPart (Split ''TimeoutMS'' CHR ''.'')) ''_''"
    using FieldToEnvName_segments_words [where fieldName = "''TimeoutMS''" and prefix = "[]"]
    by blast
  have f: "FieldToEnvName ''UserID'' [] =
             [] @ Join (map spec_envPart (Split ''UserID'' CHR ''.'')) ''_''"
    using FieldToEnvName_segments_words [where fieldName = "''UserID''" and prefix = "[]"]
    by blast
  have h: "FieldToEnvName ''Impersonate.UserName'' ''P_'' =
             ''P_'' @ Join (map spec_envPart (Split ''Impersonate.UserName'' CHR ''.'')) ''_''"
    using FieldToEnvName_segments_words
      [where fieldName = "''Impersonate.UserName''" and prefix = "''P_''"]
    by blast
  have k: "\<exists>p ps. camelcase_Split ''ID'' = p # ps \<and>
      camelcase_Split ''rID'' =
        (if word_boundary CHR ''r'' CHR ''I'' ''D'' then ''r'' # p # ps
         else (CHR ''r'' # p) # ps)"
    using FieldToEnvName_segments_words
      [where x = "CHR ''r''" and y = "CHR ''I''" and rest = "''D''"] by blast
  from a b [unfolded j1] b' [unfolded j1] c [unfolded j2] d
    e [unfolded t] f [unfolded u] h [unfolded n] k wb id
  show ?thesis
    by (auto simp: g i)
qed

end
